theory Spec2Isabelle
  imports Main "HOL-Library.Sublist"
begin

section \<open>AndroidLine: a shallow embedding of androidline.py\<close>

text \<open>
  The program is one Python script. It creates a project directory, clones a template
  into it, rewrites three placeholders of \<^verbatim>\<open>app/build.gradle\<close>, makes sure the
  \<^verbatim>\<open>gradlew\<close> launcher is present and executable, and runs the build.

  Python strings are \<^typ>\<open>string\<close>. Everything outside the script is explicit state:
  the file system, the lines printed on standard output and the subprocesses started so
  far are fields of a \<open>world\<close> record that every function takes and returns. What a
  subprocess answers is not decided by the script, so it is a parameter \<open>run\<close> of the
  model. \<^verbatim>\<open>sys.exit\<close> and an exception that nothing catches are values of type
  \<open>abort\<close>, returned on the left of a sum together with the world at that moment.
\<close>

subsection \<open>Python string operations\<close>

text \<open>
  \<^verbatim>\<open>s.replace(old, new)\<close> with a non-empty \<open>old\<close> scans \<open>s\<close> from the left, replaces
  every occurrence it meets and continues behind the replaced text, so the occurrences
  replaced do not overlap. With an empty \<open>old\<close>, Python puts \<open>new\<close> in front of
  every character and at the end.
\<close>

function replace_scan :: "string \<Rightarrow> string \<Rightarrow> string \<Rightarrow> string" where
  "replace_scan old new [] = []"
| "replace_scan old new (c # cs) =
     (if old \<noteq> [] \<and> prefix old (c # cs)
      then new @ replace_scan old new (drop (length old) (c # cs))
      else c # replace_scan old new cs)"
  by pat_completeness auto
termination
  by (relation "measure (\<lambda>(old, new, s). length s)") auto

definition str_replace :: "string \<Rightarrow> string \<Rightarrow> string \<Rightarrow> string" where
  "str_replace old new s =
     (if old = [] then new @ concat (map (\<lambda>c. c # new) s) else replace_scan old new s)"

text \<open>\<^verbatim>\<open>s.strip()\<close>: the ASCII characters for which \<^verbatim>\<open>str.isspace\<close> holds.\<close>

definition is_space :: "char \<Rightarrow> bool" where
  "is_space c \<longleftrightarrow>
     c \<in> set [CHR 0x09, CHR 0x0A, CHR 0x0B, CHR 0x0C, CHR 0x0D,
               CHR 0x1C, CHR 0x1D, CHR 0x1E, CHR 0x1F, CHR 0x20]"

definition str_strip :: "string \<Rightarrow> string" where
  "str_strip s = rev (dropWhile is_space (rev (dropWhile is_space s)))"

text \<open>
  \<^verbatim>\<open>repr\<close> of a string and of a list of strings, which the f-string
  \<^verbatim>\<open>{sys.argv}\<close> prints. Characters beyond ASCII are left as they are.
\<close>

definition hex_digit :: "nat \<Rightarrow> char" where
  "hex_digit n = ''0123456789abcdef'' ! (n mod 16)"

definition repr_char :: "char \<Rightarrow> char \<Rightarrow> string" where
  "repr_char q c =
     (if c = q \<or> c = CHR 0x5C then [CHR 0x5C, c]
      else if c = CHR 0x09 then [CHR 0x5C, CHR ''t'']
      else if c = CHR 0x0A then [CHR 0x5C, CHR ''n'']
      else if c = CHR 0x0D then [CHR 0x5C, CHR ''r'']
      else if (of_char c :: nat) < 32 \<or> (of_char c :: nat) = 127
        then [CHR 0x5C, CHR ''x'', hex_digit (of_char c div 16), hex_digit (of_char c)]
      else [c])"

definition repr_str :: "string \<Rightarrow> string" where
  "repr_str s =
     (let q = (if CHR 0x27 \<in> set s \<and> CHR 0x22 \<notin> set s then CHR 0x22 else CHR 0x27)
      in q # concat (map (repr_char q) s) @ [q])"

definition repr_list :: "string list \<Rightarrow> string" where
  "repr_list xs =
     ''['' @ (case map repr_str xs of [] \<Rightarrow> [] | r # rs \<Rightarrow> r @ concat (map (\<lambda>y. '', '' @ y) rs))
       @ '']''"

text \<open>
  \<^verbatim>\<open>os.path.join\<close> of \<^verbatim>\<open>posixpath\<close>: a component that starts with a slash
  replaces what was joined so far; otherwise it is appended, behind a slash unless the
  path so far is empty or ends with one.
\<close>

definition join2 :: "string \<Rightarrow> string \<Rightarrow> string" where
  "join2 path b =
     (if prefix ''/'' b then b
      else if path = [] \<or> last path = CHR ''/'' then path @ b
      else path @ ''/'' @ b)"

definition os_path_join :: "string \<Rightarrow> string list \<Rightarrow> string" where
  "os_path_join a p = foldl join2 a p"

text \<open>
  A file opened in text mode with the default \<^verbatim>\<open>newline=None\<close> is read with
  universal newlines: \<^verbatim>\<open>\r\n\<close> and a lone \<^verbatim>\<open>\r\<close> both arrive as \<^verbatim>\<open>\n\<close>.
\<close>

fun universal_newlines :: "string \<Rightarrow> string" where
  "universal_newlines [] = []"
| "universal_newlines (c # cs) =
     (if c = CHR 0x0D
      then CHR 0x0A # universal_newlines (if prefix [CHR 0x0A] cs then tl cs else cs)
      else c # universal_newlines cs)"

subsection \<open>The world outside the script\<close>

datatype node = File string | Dir

datatype py_exn = FileNotFoundError | FileExistsError | IsADirectoryError | OSError

datatype abort = SysExit int | Uncaught py_exn

record completed_process =
  returncode :: int
  stdout :: string
  stderr :: string

text \<open>
  \<open>nodes\<close> maps an absolute path to what is there, \<open>cwd\<close> is the working directory of
  the process, \<open>out\<close> holds the lines printed so far and \<open>calls\<close> the argument vector
  and \<^verbatim>\<open>cwd=\<close> argument of every \<^verbatim>\<open>subprocess.run\<close> so far, oldest first.
\<close>

record world =
  nodes :: "string \<rightharpoonup> node"
  cwd :: string
  out :: "string list"
  calls :: "(string list \<times> string option) list"

type_synonym 'a res = "(abort \<times> world) + ('a \<times> world)"

text \<open>
  A subprocess either cannot be started (\<^verbatim>\<open>subprocess.run\<close> raises) or completes
  with an exit status and its captured streams, and leaves the file system as it likes.
  Its answer may depend on the whole world, the calls made before included.
\<close>

type_synonym runner =
  "string list \<Rightarrow> string option \<Rightarrow> world \<Rightarrow> py_exn + (completed_process \<times> (string \<rightharpoonup> node))"

definition and_then :: "'a res \<Rightarrow> ('a \<Rightarrow> world \<Rightarrow> 'b res) \<Rightarrow> 'b res" where
  "and_then r f = (case r of Inl e \<Rightarrow> Inl e | Inr (x, w) \<Rightarrow> f x w)"

definition final_world :: "'a res \<Rightarrow> world" where
  "final_world r = (case r of Inl (e, w) \<Rightarrow> w | Inr (x, w) \<Rightarrow> w)"

text \<open>
  The exit status of the interpreter: the argument of \<^verbatim>\<open>sys.exit\<close>, 1 after an
  exception that nothing caught, 0 when \<^verbatim>\<open>main\<close> returns.
\<close>

definition exit_status :: "'a res \<Rightarrow> int" where
  "exit_status r =
     (case r of Inl (SysExit n, w) \<Rightarrow> n | Inl (Uncaught e, w) \<Rightarrow> 1 | Inr v \<Rightarrow> 0)"

text \<open>
  The operating system resolves a relative path against the working directory, and finds
  nothing at the empty path.
\<close>

definition resolve :: "world \<Rightarrow> string \<Rightarrow> string" where
  "resolve w p = join2 (cwd w) p"

definition lookup_node :: "world \<Rightarrow> string \<Rightarrow> node option" where
  "lookup_node w p = (if p = [] then None else nodes w (resolve w p))"

definition os_getcwd :: "world \<Rightarrow> string" where
  "os_getcwd w = cwd w"

definition os_path_exists :: "world \<Rightarrow> string \<Rightarrow> bool" where
  "os_path_exists w p \<longleftrightarrow> lookup_node w p \<noteq> None"

text \<open>
  \<^verbatim>\<open>os.makedirs(p, exist_ok=e)\<close> raises when \<open>p\<close> is there already, unless it is a
  directory and \<open>e\<close> holds. The intermediate directories it also creates are not
  recorded: the script never asks for them. Failures of the operating system that do
  not depend on the paths and contents the script handles (permissions, a full disk) are
  outside the model.
\<close>

definition os_makedirs :: "string \<Rightarrow> bool \<Rightarrow> world \<Rightarrow> unit res" where
  "os_makedirs p exist_ok w =
     (if p = [] then Inl (Uncaught FileNotFoundError, w)
      else case lookup_node w p of
        Some Dir \<Rightarrow> if exist_ok then Inr ((), w) else Inl (Uncaught FileExistsError, w)
      | Some (File c) \<Rightarrow> Inl (Uncaught FileExistsError, w)
      | None \<Rightarrow> Inr ((), w\<lparr>nodes := (nodes w)(resolve w p \<mapsto> Dir)\<rparr>))"

text \<open>
  \<^verbatim>\<open>open(p, 'r')\<close> followed by \<^verbatim>\<open>read()\<close>, and \<^verbatim>\<open>open(p, 'w')\<close> followed by
  \<^verbatim>\<open>write(s)\<close>. On POSIX, the platform of the tools the script starts
  (\<^verbatim>\<open>sh\<close>, \<^verbatim>\<open>ls\<close>, \<^verbatim>\<open>chmod\<close>), writing translates nothing. The file holds
  characters: the encoding is not modelled.
\<close>

definition read_text :: "string \<Rightarrow> world \<Rightarrow> string res" where
  "read_text p w =
     (case lookup_node w p of
        Some (File c) \<Rightarrow> Inr (universal_newlines c, w)
      | Some Dir \<Rightarrow> Inl (Uncaught IsADirectoryError, w)
      | None \<Rightarrow> Inl (Uncaught FileNotFoundError, w))"

definition write_text :: "string \<Rightarrow> string \<Rightarrow> world \<Rightarrow> unit res" where
  "write_text p s w =
     (if p = [] then Inl (Uncaught FileNotFoundError, w)
      else case lookup_node w p of
        Some Dir \<Rightarrow> Inl (Uncaught IsADirectoryError, w)
      | _ \<Rightarrow> Inr ((), w\<lparr>nodes := (nodes w)(resolve w p \<mapsto> File s)\<rparr>))"

text \<open>
  \<^verbatim>\<open>subprocess.run(argv, stdout=PIPE, stderr=PIPE, cwd=dir)\<close>: the call is recorded,
  then the world answers.
\<close>

definition subprocess_run ::
  "runner \<Rightarrow> string list \<Rightarrow> string option \<Rightarrow> world \<Rightarrow> completed_process res" where
  "subprocess_run run argv dir w =
     (let w' = w\<lparr>calls := calls w @ [(argv, dir)]\<rparr>
      in case run argv dir w of
           Inl e \<Rightarrow> Inl (Uncaught e, w')
         | Inr (cp, fs) \<Rightarrow> Inr (cp, w'\<lparr>nodes := fs\<rparr>))"

definition sys_exit :: "int \<Rightarrow> world \<Rightarrow> 'a res" where
  "sys_exit n w = Inl (SysExit n, w)"

subsection \<open>The script\<close>

text \<open>
  \<^verbatim>\<open>print_colored\<close> prints one line: the escape sequence of the colour, the
  message, the reset sequence. A colour that is not in the table gets the reset sequence.
\<close>

definition colors_get :: "string \<Rightarrow> string" where
  "colors_get color =
     (if color = ''green'' then CHR 0x1B # ''[32m''
      else if color = ''yellow'' then CHR 0x1B # ''[33m''
      else if color = ''red'' then CHR 0x1B # ''[31m''
      else CHR 0x1B # ''[0m'')"

definition print_colored :: "string \<Rightarrow> string \<Rightarrow> world \<Rightarrow> world" where
  "print_colored message color w =
     w\<lparr>out := out w @ [colors_get color @ message @ colors_get ''reset'']\<rparr>"

definition clone_template :: "runner \<Rightarrow> string \<Rightarrow> string \<Rightarrow> world \<Rightarrow> unit res" where
  "clone_template run template_repo project_name w =
     and_then
       (subprocess_run run [''git'', ''clone'', template_repo, project_name] None
          (print_colored (''Cloning template repository: '' @ template_repo) ''yellow'' w))
       (\<lambda>result w1.
          if returncode result \<noteq> 0
          then sys_exit 1 (print_colored ''Error: Failed to clone the repository.'' ''red'' w1)
          else Inr ((), w1))"

text \<open>The f-string of \<^verbatim>\<open>create_default_build_gradle\<close>, line by line.\<close>

definition build_gradle_content :: "string \<Rightarrow> string \<Rightarrow> string \<Rightarrow> string" where
  "build_gradle_content package_name min_sdk target_sdk =
     concat (map (\<lambda>l. l @ [CHR 0x0A])
       [ [],
         ''apply plugin: '' @ [CHR 0x27] @ ''com.android.application'' @ [CHR 0x27],
         [],
         ''android {'',
         ''    compileSdkVersion 30'',
         ''    defaultConfig {'',
         ''        applicationId '' @ [CHR 0x22] @ package_name @ [CHR 0x22],
         ''        minSdkVersion '' @ min_sdk,
         ''        targetSdkVersion '' @ target_sdk,
         ''        versionCode 1'',
         ''        versionName '' @ [CHR 0x22] @ ''1.0'' @ [CHR 0x22],
         ''    }'',
         ''    buildTypes {'',
         ''        release {'',
         ''            minifyEnabled false'',
         ''            proguardFiles getDefaultProguardFile('' @ [CHR 0x27]
            @ ''proguard-android-optimize.txt'' @ [CHR 0x27] @ ''), '' @ [CHR 0x27]
            @ ''proguard-rules.pro'' @ [CHR 0x27],
         ''        }'',
         ''        debug {'',
         ''            debuggable true'',
         ''        }'',
         ''    }'',
         ''}'',
         [],
         ''dependencies {'',
         ''    implementation '' @ [CHR 0x27] @ ''com.android.support:appcompat-v7:28.0.0''
            @ [CHR 0x27],
         ''}'' ])"

definition create_default_build_gradle ::
  "string \<Rightarrow> string \<Rightarrow> string \<Rightarrow> string \<Rightarrow> world \<Rightarrow> unit res" where
  "create_default_build_gradle project_path package_name min_sdk target_sdk w =
     (let app_path = os_path_join project_path [''app'']
      in and_then
           (if \<not> os_path_exists w app_path then os_makedirs app_path False w
            else Inr ((), w))
           (\<lambda>u w1. write_text (os_path_join app_path [''build.gradle''])
                      (build_gradle_content package_name min_sdk target_sdk) w1))"

definition customize_project ::
  "string \<Rightarrow> string \<Rightarrow> string \<Rightarrow> string \<Rightarrow> world \<Rightarrow> unit res" where
  "customize_project project_name package_name min_sdk target_sdk w =
     (let project_path = os_path_join (os_getcwd w) [project_name];
          build_gradle = os_path_join project_path [''app'', ''build.gradle'']
      in and_then
           (if \<not> os_path_exists w build_gradle
            then create_default_build_gradle project_path package_name min_sdk target_sdk
                   (print_colored
                      ''Error: build.gradle is missing. Creating default build.gradle.''
                      ''yellow'' w)
            else Inr ((), w))
           (\<lambda>u w1.
              and_then (read_text build_gradle w1)
                (\<lambda>build_content w2.
                   let c1 = str_replace ''com.example.app'' package_name build_content;
                       c2 = str_replace ''minSdkVersion 21'' (''minSdkVersion '' @ min_sdk) c1;
                       c3 = str_replace ''targetSdkVersion 30''
                              (''targetSdkVersion '' @ target_sdk) c2
                   in and_then (write_text build_gradle c3 w2)
                        (\<lambda>u w3.
                           Inr ((), print_colored
                             (''Project '' @ project_name @ '' customized with package name ''
                                @ package_name @ '', minSdk '' @ min_sdk @ '', targetSdk ''
                                @ target_sdk @ ''.'')
                             ''green'' w3)))))"

definition ensure_gradlew :: "runner \<Rightarrow> string \<Rightarrow> world \<Rightarrow> unit res" where
  "ensure_gradlew run project_name w =
     (let gradlew_path = os_path_join project_name [''gradlew'']
      in and_then
           (if \<not> os_path_exists w gradlew_path
            then and_then
                   (subprocess_run run [''gradle'', ''wrapper''] (Some project_name)
                      (print_colored
                         (''gradlew not found. Running '' @ [CHR 0x27] @ ''gradle wrapper''
                            @ [CHR 0x27] @ '' to generate it...'')
                         ''yellow'' w))
                   (\<lambda>result w1.
                      if returncode result \<noteq> 0
                      then sys_exit 1
                             (print_colored
                                ''Error: Failed to generate gradle wrapper. Make sure Gradle is installed.''
                                ''red'' w1)
                      else Inr ((), w1))
            else Inr ((), w))
           (\<lambda>u w1.
              if os_path_exists w1 gradlew_path
              then and_then
                     (subprocess_run run [''ls'', ''-l'', gradlew_path] None
                        (print_colored ''Checking permissions for gradlew...'' ''yellow'' w1))
                     (\<lambda>result w2.
                        if returncode result \<noteq> 0
                        then sys_exit 1
                               (print_colored ''Error: Failed to check gradlew permissions.''
                                  ''red'' w2)
                        else
                          let permissions = str_strip (stdout result)
                          in if CHR ''x'' \<notin> set permissions
                             then and_then
                                    (subprocess_run run [''chmod'', ''+x'', gradlew_path]
                                       (Some project_name)
                                       (print_colored
                                          ''gradlew does not have execute permissions. Attempting to set them...''
                                          ''yellow'' w2))
                                    (\<lambda>result w3.
                                       if returncode result \<noteq> 0
                                       then sys_exit 1
                                              (print_colored
                                                 ''Error: Failed to set executable permissions for gradlew. Please try setting permissions manually.''
                                                 ''red'' w3)
                                       else Inr ((), w3))
                             else Inr ((), print_colored
                                    ''gradlew already has executable permissions.'' ''green'' w2))
              else sys_exit 1
                     (print_colored
                        ''gradlew not found even after running gradle wrapper. Please check the project directory.''
                        ''red'' w1)))"

text \<open>
  The progress bar of \<^verbatim>\<open>tqdm\<close> is drawn on standard error and decides nothing; it
  is left out.
\<close>

definition compile_project :: "runner \<Rightarrow> string \<Rightarrow> world \<Rightarrow> unit res" where
  "compile_project run project_name w =
     (let project_path = os_path_join (os_getcwd w) [project_name];
          gradlew_path = os_path_join project_path [''gradlew'']
      in and_then (ensure_gradlew run project_name w)
           (\<lambda>u w1.
              and_then
                (subprocess_run run [''sh'', gradlew_path, ''assembleDebug''] (Some project_path)
                   (print_colored (''Compiling project '' @ project_name @ '' using gradlew...'')
                      ''yellow'' w1))
                (\<lambda>result w2.
                   if returncode result \<noteq> 0
                   then sys_exit 1
                          (print_colored (''Gradle error output: '' @ stderr result) ''red''
                             (print_colored ''Error: Gradle build failed.'' ''red'' w2))
                   else
                     let w3 = print_colored ''Build successful!'' ''green'' w2;
                         apk_path = os_path_join project_path
                           [''app'', ''build'', ''outputs'', ''apk'', ''debug'', ''app-debug.apk'']
                     in if os_path_exists w3 apk_path
                        then Inr ((), print_colored (''APK successfully built: '' @ apk_path)
                                        ''green'' w3)
                        else Inr ((), print_colored
                                        ''Error: APK not found. Build might have failed.''
                                        ''red'' w3))))"

text \<open>\<open>argv\<close> is \<^verbatim>\<open>sys.argv\<close>: the name of the script, then its arguments.\<close>

definition main :: "runner \<Rightarrow> string list \<Rightarrow> world \<Rightarrow> unit res" where
  "main run argv w =
     (if length argv \<noteq> 5
      then sys_exit 1
             (print_colored
                ''Usage: python androidline.py <project_name> <package_name> <min_sdk> <target_sdk>''
                ''red'' w)
      else
        let project_name = argv ! 1;
            package_name = argv ! 2;
            min_sdk = argv ! 3;
            target_sdk = argv ! 4;
            template_repo = ''https://github.com/H4-Corp/android-template-for-al.git'';
            w1 = print_colored (''Arguments received: '' @ repr_list argv) ''yellow'' w;
            w2 = print_colored (''Creating project directory: '' @ project_name) ''yellow'' w1
        in and_then (os_makedirs project_name True w2)
             (\<lambda>u w3.
                and_then (clone_template run template_repo project_name w3)
                  (\<lambda>u w4.
                     and_then (customize_project project_name package_name min_sdk target_sdk w4)
                       (\<lambda>u w5. compile_project run project_name w5))))"

subsection \<open>Notions used in the statements\<close>

text \<open>
  Two texts can overlap when one occurs inside the other or a non-empty end of one is a
  beginning of the other. Occurrences of texts that cannot overlap never share a
  character.
\<close>

definition can_overlap :: "string \<Rightarrow> string \<Rightarrow> bool" where
  "can_overlap a b \<longleftrightarrow>
     sublist a b \<or> sublist b a \<or>
     (\<exists>t \<in> set (suffixes a). t \<noteq> [] \<and> prefix t b) \<or>
     (\<exists>t \<in> set (suffixes b). t \<noteq> [] \<and> prefix t a)"

text \<open>
  The three texts \<^verbatim>\<open>customize_project\<close> looks for, the three it puts in their
  place, and the effect of its three \<^verbatim>\<open>replace\<close> calls on the text read.
\<close>

definition placeholders :: "string list" where
  "placeholders = [''com.example.app'', ''minSdkVersion 21'', ''targetSdkVersion 30'']"

definition replacements :: "string \<Rightarrow> string \<Rightarrow> string \<Rightarrow> string list" where
  "replacements package_name min_sdk target_sdk =
     [package_name, ''minSdkVersion '' @ min_sdk, ''targetSdkVersion '' @ target_sdk]"

definition substituted :: "string \<Rightarrow> string \<Rightarrow> string \<Rightarrow> string \<Rightarrow> string" where
  "substituted package_name min_sdk target_sdk build_content =
     str_replace ''targetSdkVersion 30'' (''targetSdkVersion '' @ target_sdk)
       (str_replace ''minSdkVersion 21'' (''minSdkVersion '' @ min_sdk)
          (str_replace ''com.example.app'' package_name build_content))"

text \<open>
  Paths and argument vectors the script computes, named for the statements.
\<close>

definition project_path :: "world \<Rightarrow> string \<Rightarrow> string" where
  "project_path w project_name = os_path_join (os_getcwd w) [project_name]"

definition descriptor_path :: "world \<Rightarrow> string \<Rightarrow> string" where
  "descriptor_path w project_name =
     os_path_join (os_path_join (os_getcwd w) [project_name]) [''app'', ''build.gradle'']"

definition gradlew_path :: "string \<Rightarrow> string" where
  "gradlew_path project_name = os_path_join project_name [''gradlew'']"

definition apk_path :: "world \<Rightarrow> string \<Rightarrow> string" where
  "apk_path w project_name =
     os_path_join (project_path w project_name)
       [''app'', ''build'', ''outputs'', ''apk'', ''debug'', ''app-debug.apk'']"

definition template_repo :: string where
  "template_repo = ''https://github.com/H4-Corp/android-template-for-al.git''"

definition clone_call :: "string \<Rightarrow> string list \<times> string option" where
  "clone_call project_name = ([''git'', ''clone'', template_repo, project_name], None)"

definition wrapper_call :: "string \<Rightarrow> string list \<times> string option" where
  "wrapper_call project_name = ([''gradle'', ''wrapper''], Some project_name)"

definition listing_call :: "string \<Rightarrow> string list \<times> string option" where
  "listing_call project_name = ([''ls'', ''-l'', gradlew_path project_name], None)"

definition build_argv :: "world \<Rightarrow> string \<Rightarrow> string list" where
  "build_argv w project_name =
     [''sh'', os_path_join (project_path w project_name) [''gradlew''], ''assembleDebug'']"

text \<open>
  What is in the file at a path, and what is in the descriptor once
  \<^verbatim>\<open>customize_project\<close> has returned.
\<close>

definition file_content :: "world \<Rightarrow> string \<Rightarrow> string option" where
  "file_content w p = (case lookup_node w p of Some (File c) \<Rightarrow> Some c | _ \<Rightarrow> None)"

definition descriptor_after ::
  "string \<Rightarrow> string \<Rightarrow> string \<Rightarrow> string \<Rightarrow> world \<Rightarrow> string option" where
  "descriptor_after project_name package_name min_sdk target_sdk w =
     (case customize_project project_name package_name min_sdk target_sdk w of
        Inl e \<Rightarrow> None
      | Inr (u, w') \<Rightarrow> file_content w' (descriptor_path w project_name))"


definition arguments_line :: "string list \<Rightarrow> string" where
  "arguments_line argv = colors_get ''yellow'' @ ''Arguments received: '' @ repr_list argv
     @ colors_get ''reset''"

definition creating_line :: "string \<Rightarrow> string" where
  "creating_line project_name = colors_get ''yellow'' @ ''Creating project directory: ''
     @ project_name @ colors_get ''reset''"

definition customized_line :: "string \<Rightarrow> string \<Rightarrow> string \<Rightarrow> string \<Rightarrow> string" where
  "customized_line project_name package_name min_sdk target_sdk =
     colors_get ''green'' @ ''Project '' @ project_name @ '' customized with package name ''
       @ package_name @ '', minSdk '' @ min_sdk @ '', targetSdk '' @ target_sdk @ ''.''
       @ colors_get ''reset''"


definition wrapper_notice :: string where
  "wrapper_notice = colors_get ''yellow'' @ ''gradlew not found. Running '' @ [CHR 0x27]
     @ ''gradle wrapper'' @ [CHR 0x27] @ '' to generate it...'' @ colors_get ''reset''"

definition launcher_missing_line :: string where
  "launcher_missing_line = colors_get ''red''
     @ ''gradlew not found even after running gradle wrapper. Please check the project directory.''
     @ colors_get ''reset''"

definition checking_line :: string where
  "checking_line = colors_get ''yellow'' @ ''Checking permissions for gradlew...''
     @ colors_get ''reset''"

definition already_executable_line :: string where
  "already_executable_line = colors_get ''green''
     @ ''gradlew already has executable permissions.'' @ colors_get ''reset''"

definition compiling_line :: "string \<Rightarrow> string" where
  "compiling_line project_name = colors_get ''yellow'' @ ''Compiling project '' @ project_name
     @ '' using gradlew...'' @ colors_get ''reset''"

definition build_successful_line :: string where
  "build_successful_line = colors_get ''green'' @ ''Build successful!'' @ colors_get ''reset''"

definition apk_missing_line :: string where
  "apk_missing_line = colors_get ''red'' @ ''Error: APK not found. Build might have failed.''
     @ colors_get ''reset''"

text \<open>
  The world in which \<open>main\<close> creates the project directory: its first two lines are
  printed.
\<close>

definition announced :: "string list \<Rightarrow> world \<Rightarrow> world" where
  "announced argv w =
     print_colored (''Creating project directory: '' @ argv ! 1) ''yellow''
       (print_colored (''Arguments received: '' @ repr_list argv) ''yellow'' w)"

text \<open>
  Wrapper generation fails when \<^verbatim>\<open>gradle wrapper\<close> cannot be started or
  returns a status other than 0.
\<close>

definition wrapper_failed :: "runner \<Rightarrow> string \<Rightarrow> world \<Rightarrow> bool" where
  "wrapper_failed run project_name w =
     (case run [''gradle'', ''wrapper''] (Some project_name) (w\<lparr>out := out w @ [wrapper_notice]\<rparr>) of
        Inl e \<Rightarrow> True
      | Inr (cp, fs) \<Rightarrow> returncode cp \<noteq> 0)"

text \<open>
  A later world extends an earlier one when output and subprocess calls were only
  appended and the working directory is the same.
\<close>

definition extends :: "world \<Rightarrow> world \<Rightarrow> bool" where
  "extends w w' \<longleftrightarrow> prefix (out w) (out w') \<and> prefix (calls w) (calls w') \<and> cwd w' = cwd w"

subsection \<open>Concrete worlds and subprocesses\<close>

text \<open>
  Inputs at which the statements are evaluated: a machine where no program can be
  started, one where every program succeeds and changes nothing, one where
  \<^verbatim>\<open>ls -l\<close> prints a listing line with a given mode, and one where the clone
  delivers a template with a descriptor and a launcher.
\<close>

definition no_runner :: runner where
  "no_runner argv dir w = Inl OSError"

definition empty_world :: world where
  "empty_world = \<lparr>nodes = Map.empty, cwd = ''/home/dev'', out = [], calls = []\<rparr>"

definition completed_ok :: completed_process where
  "completed_ok = \<lparr>returncode = 0, stdout = [], stderr = []\<rparr>"

definition idle_runner :: runner where
  "idle_runner argv dir w = Inr (completed_ok, nodes w)"

definition listing_runner :: "string \<Rightarrow> runner" where
  "listing_runner mode argv dir w =
     (if take 2 argv = [''ls'', ''-l'']
      then Inr (\<lparr>returncode = 0,
                 stdout = mode @ '' 1 dev dev 5296 Nov  3 19:11 '' @ last argv @ [CHR 0x0A],
                 stderr = []\<rparr>, nodes w)
      else if take 2 argv = [''chmod'', ''+x'']
      then Inr (\<lparr>returncode = 0, stdout = [], stderr = []\<rparr>, nodes w)
      else Inl OSError)"

definition descriptor_lines :: "string \<Rightarrow> string \<Rightarrow> string \<Rightarrow> string list" where
  "descriptor_lines package_name min_sdk target_sdk =
     [''android {'',
      ''    defaultConfig {'',
      ''        applicationId '' @ [CHR 0x22] @ package_name @ [CHR 0x22],
      ''        minSdkVersion '' @ min_sdk,
      ''        targetSdkVersion '' @ target_sdk,
      ''    }'',
      ''}'']"

definition unix_text :: "string list \<Rightarrow> string" where
  "unix_text ls = concat (map (\<lambda>l. l @ [CHR 0x0A]) ls)"


definition template_descriptor :: string where
  "template_descriptor = unix_text (descriptor_lines ''com.example.app'' ''21'' ''30'')"


definition happy_runner :: runner where
  "happy_runner argv dir w =
     (if take 2 argv = [''git'', ''clone'']
      then Inr (completed_ok,
             (nodes w)(''/home/dev/MyApp/app/build.gradle'' \<mapsto> File template_descriptor,
                       ''/home/dev/MyApp/gradlew'' \<mapsto> File ''#!/bin/sh''))
      else if take 2 argv = [''ls'', ''-l'']
      then Inr (completed_ok\<lparr>stdout := ''-rwxr-xr-x 1 dev dev 5296 Nov  3 19:11 '' @ last argv
                                   @ [CHR 0x0A]\<rparr>, nodes w)
      else if take 1 argv = [''sh'']
      then Inr (completed_ok, nodes w)
      else Inl OSError)"

definition world_with_descriptor :: "string \<Rightarrow> world" where
  "world_with_descriptor c =
     \<lparr>nodes = [''/home/dev/MyApp/app/build.gradle'' \<mapsto> File c],
      cwd = ''/home/dev'', out = [], calls = []\<rparr>"

definition world_with_gradlew :: "string \<Rightarrow> world" where
  "world_with_gradlew project_name =
     \<lparr>nodes = [''/home/dev/'' @ project_name @ ''/gradlew'' \<mapsto> File ''#!/bin/sh''],
      cwd = ''/home/dev'', out = [], calls = []\<rparr>"

definition world_with_project :: world where
  "world_with_project =
     \<lparr>nodes = [''/home/dev/MyApp'' \<mapsto> Dir], cwd = ''/home/dev'', out = [], calls = []\<rparr>"

definition demo_argv :: "string list" where
  "demo_argv = [''androidline.py'', ''MyApp'', ''com.test.app'', ''23'', ''33'']"

definition demo_created :: world where
  "demo_created = final_world (os_makedirs ''MyApp'' True (announced demo_argv empty_world))"

definition demo_cloned :: world where
  "demo_cloned = final_world (clone_template happy_runner template_repo ''MyApp'' demo_created)"

definition demo_customized :: world where
  "demo_customized =
     final_world (customize_project ''MyApp'' ''com.test.app'' ''23'' ''33'' demo_cloned)"

definition demo_checked :: world where
  "demo_checked = final_world (ensure_gradlew happy_runner ''MyApp'' demo_customized)"

definition demo_build :: "py_exn + (completed_process \<times> (string \<rightharpoonup> node))" where
  "demo_build =
     happy_runner (build_argv demo_customized ''MyApp'')
       (Some (project_path demo_customized ''MyApp''))
       (demo_checked\<lparr>out := out demo_checked @ [compiling_line ''MyApp'']\<rparr>)"

section \<open>Properties\<close>

subsection \<open>Replacing a text\<close>


lemma replace_scan_has_new:
  "old \<noteq> [] \<Longrightarrow> sublist old s \<Longrightarrow> sublist new (replace_scan old new s)"
proof (induction s)
  case Nil
  then show ?case by simp
next
  case (Cons c cs)
  show ?case
  proof (cases "prefix old (c # cs)")
    case True
    with Cons.prems show ?thesis by simp
  next
    case False
    with Cons.prems have "sublist old cs" by (simp add: sublist_Cons_right)
    with Cons have "sublist new (replace_scan old new cs)" by simp
    with False show ?thesis by (simp add: sublist_Cons_right)
  qed
qed

text \<open>
  The result of the scan begins like its input, as far as a text is concerned that
  cannot run into a replacement, and the other way round.
\<close>

lemma prefix_reflect:
  assumes nf: "\<And>t. t \<noteq> [] \<Longrightarrow> suffix t q \<Longrightarrow> \<not> prefix t new \<and> \<not> prefix new t"
  shows "prefix q (replace_scan old new s) \<Longrightarrow> prefix q s"
  using nf
proof (induction old new s arbitrary: q rule: replace_scan.induct)
  case (1 old new)
  then show ?case by simp
next
  case (2 old new c cs)
  show ?case
  proof (cases "q = []")
    case True
    then show ?thesis by simp
  next
    case qne: False
    show ?thesis
    proof (cases "old \<noteq> [] \<and> prefix old (c # cs)")
      case True
      with "2.prems"(1) have "prefix q (new @ replace_scan old new (drop (length old) (c # cs)))"
        by simp
      then have "prefix q new \<or> prefix new q"
        by (metis prefix_append prefixI)
      moreover have "\<not> prefix q new \<and> \<not> prefix new q"
        using "2.prems"(2)[of q] qne by simp
      ultimately show ?thesis by simp
    next
      case False
      with "2.prems"(1) have p: "prefix q (c # replace_scan old new cs)" by auto
      from qne obtain q' where q: "q = c # q'" and p': "prefix q' (replace_scan old new cs)"
        using p by (cases q) auto
      have "\<And>t. t \<noteq> [] \<Longrightarrow> suffix t q' \<Longrightarrow> \<not> prefix t new \<and> \<not> prefix new t"
        using "2.prems"(2) q by (simp add: suffix_Cons)
      with "2.IH"(2)[OF False p'] have "prefix q' cs" by blast
      with q show ?thesis by simp
    qed
  qed
qed

lemma prefix_preserve:
  assumes nf: "\<And>t. t \<noteq> [] \<Longrightarrow> suffix t w \<Longrightarrow> \<not> prefix t old \<and> \<not> prefix old t"
  shows "prefix w s \<Longrightarrow> prefix w (replace_scan old new s)"
  using nf
proof (induction old new s arbitrary: w rule: replace_scan.induct)
  case (1 old new)
  then show ?case by simp
next
  case (2 old new c cs)
  show ?case
  proof (cases "w = []")
    case True
    then show ?thesis by simp
  next
    case wne: False
    have no: "\<not> prefix w old \<and> \<not> prefix old w"
      using "2.prems"(2)[of w] wne by simp
    have np: "\<not> prefix old (c # cs)"
      using no "2.prems"(1) by (meson prefix_same_cases)
    from wne "2.prems"(1) obtain w' where w: "w = c # w'" and p': "prefix w' cs"
      by (cases w) auto
    have "\<And>t. t \<noteq> [] \<Longrightarrow> suffix t w' \<Longrightarrow> \<not> prefix t old \<and> \<not> prefix old t"
      using "2.prems"(2) w by (simp add: suffix_Cons)
    with "2.IH"(2)[OF _ p'] np have "prefix w' (replace_scan old new cs)" by blast
    with w np show ?thesis by simp
  qed
qed

lemma can_overlap_commute: "can_overlap a b = can_overlap b a"
  by (auto simp: can_overlap_def)

lemma no_overlap_front:
  assumes "\<not> can_overlap a b" "t \<noteq> []" "suffix t b"
  shows "\<not> prefix t a \<and> \<not> prefix a t"
proof -
  have "\<not> prefix t a"
    using assms by (auto simp: can_overlap_def)
  moreover have "\<not> prefix a t"
  proof
    assume "prefix a t"
    then have "sublist a b"
      using assms(3) by (meson prefix_imp_sublist suffix_imp_sublist sublist_order.order_trans)
    with assms(1) show False by (simp add: can_overlap_def)
  qed
  ultimately show ?thesis by simp
qed

lemma no_overlap_join:
  assumes "\<not> can_overlap a b" "\<not> sublist b r"
  shows "\<not> sublist b (a @ r)"
proof
  assume "sublist b (a @ r)"
  then consider "sublist b a" | "sublist b r"
    | xs1 xs2 where "b = xs1 @ xs2" "suffix xs1 a" "prefix xs2 r"
    by (auto simp: sublist_append)
  then show False
  proof cases
    case 1
    with assms(1) show False by (simp add: can_overlap_def)
  next
    case 2
    with assms(2) show False by simp
  next
    case 3
    show False
    proof (cases "xs1 = []")
      case True
      with 3 assms(2) show False by auto
    next
      case False
      with 3 have "xs1 \<in> set (suffixes a) \<and> xs1 \<noteq> [] \<and> prefix xs1 b" by simp
      with assms(1) show False by (auto simp: can_overlap_def)
    qed
  qed
qed

lemma no_overlap_split:
  assumes "\<not> can_overlap a w" "sublist w (a @ r)"
  shows "sublist w r"
  using assms no_overlap_join by blast

text \<open>
  When the new text cannot overlap a text \<open>q\<close>, replacing creates no occurrence of
  \<open>q\<close>; when it cannot overlap the old text, no occurrence of the old text is left;
  and an occurrence of a text that cannot overlap the old text stays.
\<close>

lemma replace_scan_keeps_free:
  "\<not> can_overlap new q \<Longrightarrow> \<not> sublist q s \<Longrightarrow> \<not> sublist q (replace_scan old new s)"
proof (induction old new s rule: replace_scan.induct)
  case (1 old new)
  then show ?case by simp
next
  case (2 old new c cs)
  note no = \<open>\<not> can_overlap new q\<close>
  show ?case
  proof (cases "old \<noteq> [] \<and> prefix old (c # cs)")
    case True
    have "\<not> sublist q (drop (length old) (c # cs))"
      using "2.prems"(2) by (meson sublist_drop sublist_order.order_trans)
    with "2.IH"(1)[OF True no]
    have "\<not> sublist q (replace_scan old new (drop (length old) (c # cs)))" by simp
    with no have "\<not> sublist q (new @ replace_scan old new (drop (length old) (c # cs)))"
      by (rule no_overlap_join)
    with True show ?thesis by simp
  next
    case False
    have "\<not> sublist q cs"
      using "2.prems"(2) by (simp add: sublist_Cons_right)
    with "2.IH"(2)[OF False no] have tl: "\<not> sublist q (replace_scan old new cs)" by simp
    have "\<not> prefix q (replace_scan old new (c # cs))"
    proof
      assume "prefix q (replace_scan old new (c # cs))"
      then have "prefix q (c # cs)"
        using no_overlap_front[OF no] by (rule prefix_reflect[rotated])
      with "2.prems"(2) show False by auto
    qed
    with tl False show ?thesis by (auto simp: sublist_Cons_right)
  qed
qed

lemma replace_scan_removes_old:
  "\<not> can_overlap new old \<Longrightarrow> \<not> sublist old (replace_scan old new s)"
proof (induction old new s rule: replace_scan.induct)
  case (1 old new)
  then show ?case by (auto simp: can_overlap_def)
next
  case (2 old new c cs)
  note no = \<open>\<not> can_overlap new old\<close>
  show ?case
  proof (cases "old \<noteq> [] \<and> prefix old (c # cs)")
    case True
    from "2.IH"(1)[OF True no] no
    have "\<not> sublist old (new @ replace_scan old new (drop (length old) (c # cs)))"
      by (simp add: no_overlap_join)
    with True show ?thesis by simp
  next
    case False
    from "2.IH"(2)[OF False no] have tl: "\<not> sublist old (replace_scan old new cs)" .
    have one: "old \<noteq> []" using no by (auto simp: can_overlap_def)
    have "\<not> prefix old (replace_scan old new (c # cs))"
    proof
      assume "prefix old (replace_scan old new (c # cs))"
      then have "prefix old (c # cs)"
        using no_overlap_front[OF no] by (rule prefix_reflect[rotated])
      with False one show False by simp
    qed
    with tl False show ?thesis by (auto simp: sublist_Cons_right)
  qed
qed

lemma replace_scan_survives:
  "\<not> can_overlap old w \<Longrightarrow> sublist w s \<Longrightarrow> sublist w (replace_scan old new s)"
proof (induction old new s rule: replace_scan.induct)
  case (1 old new)
  then show ?case by simp
next
  case (2 old new c cs)
  note no = \<open>\<not> can_overlap old w\<close>
  show ?case
  proof (cases "old \<noteq> [] \<and> prefix old (c # cs)")
    case True
    then have "c # cs = old @ drop (length old) (c # cs)"
      by (metis append_take_drop_id prefix_def append_eq_conv_conj)
    with "2.prems"(2) have "sublist w (old @ drop (length old) (c # cs))" by simp
    with no have "sublist w (drop (length old) (c # cs))" by (rule no_overlap_split)
    with "2.IH"(1)[OF True no]
    have "sublist w (replace_scan old new (drop (length old) (c # cs)))" by simp
    then have "sublist w (new @ replace_scan old new (drop (length old) (c # cs)))"
      by (simp add: sublist_append)
    with True show ?thesis by simp
  next
    case False
    from "2.prems"(2) consider "prefix w (c # cs)" | "sublist w cs"
      by (auto simp: sublist_Cons_right)
    then show ?thesis
    proof cases
      case 1
      then have "prefix w (replace_scan old new (c # cs))"
        using no_overlap_front[OF no] by (rule prefix_preserve[rotated])
      then show ?thesis by (rule prefix_imp_sublist)
    next
      case 2
      with "2.IH"(2)[OF False no] have "sublist w (replace_scan old new cs)" by simp
      with False show ?thesis by (auto simp: sublist_Cons_right)
    qed
  qed
qed

lemma placeholders_apart:
  "\<not> can_overlap ''com.example.app'' ''minSdkVersion 21''"
  "\<not> can_overlap ''com.example.app'' ''targetSdkVersion 30''"
  "\<not> can_overlap ''minSdkVersion 21'' ''targetSdkVersion 30''"
  by code_simp+

lemma placeholders_plain:
  "p \<in> set placeholders \<Longrightarrow> CHR 0x0D \<notin> set p \<and> CHR 0x0A \<notin> set p \<and> p \<noteq> []"
  by (auto simp: placeholders_def)

lemma substituted_clean:
  assumes has: "\<forall>p \<in> set placeholders. sublist p c"
    and apart: "\<forall>n \<in> set (replacements pkg mn tg). \<forall>p \<in> set placeholders. \<not> can_overlap n p"
  shows "(\<forall>p \<in> set placeholders. \<not> sublist p (substituted pkg mn tg c)) \<and>
         (\<forall>n \<in> set (replacements pkg mn tg). sublist n (substituted pkg mn tg c))"
proof -
  let ?P1 = "''com.example.app''" and ?P2 = "''minSdkVersion 21''"
    and ?P3 = "''targetSdkVersion 30''"
  let ?N2 = "''minSdkVersion '' @ mn" and ?N3 = "''targetSdkVersion '' @ tg"
  let ?c1 = "replace_scan ?P1 pkg c"
  let ?c2 = "replace_scan ?P2 ?N2 ?c1"
  let ?c3 = "replace_scan ?P3 ?N3 ?c2"
  have c3: "substituted pkg mn tg c = ?c3"
    by (simp add: substituted_def str_replace_def)
  from has have h1: "sublist ?P1 c" and h2: "sublist ?P2 c" and h3: "sublist ?P3 c"
    by (simp_all add: placeholders_def)
  from apart have
    a11: "\<not> can_overlap pkg ?P1" and a12: "\<not> can_overlap pkg ?P2"
    and a13: "\<not> can_overlap pkg ?P3" and a21: "\<not> can_overlap ?N2 ?P1"
    and a22: "\<not> can_overlap ?N2 ?P2" and a23: "\<not> can_overlap ?N2 ?P3"
    and a31: "\<not> can_overlap ?N3 ?P1" and a32: "\<not> can_overlap ?N3 ?P2"
    and a33: "\<not> can_overlap ?N3 ?P3"
    by (simp_all add: placeholders_def replacements_def)
  have b12: "\<not> can_overlap ?P2 pkg" and b13: "\<not> can_overlap ?P3 pkg"
    and b23: "\<not> can_overlap ?P3 ?N2"
    using a12 a13 a23 by (simp_all add: can_overlap_commute)
  have f1: "\<not> sublist ?P1 ?c3"
    by (rule replace_scan_keeps_free[OF a31 replace_scan_keeps_free[OF a21
          replace_scan_removes_old[OF a11]]])
  have f2: "\<not> sublist ?P2 ?c3"
    by (rule replace_scan_keeps_free[OF a32 replace_scan_removes_old[OF a22]])
  have f3: "\<not> sublist ?P3 ?c3"
    by (rule replace_scan_removes_old[OF a33])
  have p1: "sublist pkg ?c1"
    by (rule replace_scan_has_new[OF _ h1]) simp
  have g1: "sublist pkg ?c3"
    by (rule replace_scan_survives[OF b13 replace_scan_survives[OF b12 p1]])
  have p2: "sublist ?P2 ?c1"
    by (rule replace_scan_survives[OF placeholders_apart(1) h2])
  have n2: "sublist ?N2 ?c2"
    by (rule replace_scan_has_new[OF _ p2]) simp
  have g2: "sublist ?N2 ?c3"
    by (rule replace_scan_survives[OF b23 n2])
  have p3: "sublist ?P3 ?c2"
    by (rule replace_scan_survives[OF placeholders_apart(3)
          replace_scan_survives[OF placeholders_apart(2) h3]])
  have g3: "sublist ?N3 ?c3"
    by (rule replace_scan_has_new[OF _ p3]) simp
  from f1 f2 f3 g1 g2 g3 show ?thesis
    unfolding c3 by (simp add: placeholders_def replacements_def)
qed

subsection \<open>Reading with universal newlines\<close>


lemma universal_newlines_prefix:
  "CHR 0x0D \<notin> set p \<Longrightarrow> prefix p s \<Longrightarrow> prefix p (universal_newlines s)"
proof (induction s arbitrary: p)
  case Nil
  then show ?case by simp
next
  case (Cons c cs)
  show ?case
  proof (cases p)
    case Nil
    then show ?thesis by simp
  next
    case (Cons x p')
    with Cons.prems have "x = c" "c \<noteq> CHR 0x0D" "prefix p' cs" "CHR 0x0D \<notin> set p'"
      by auto
    with Cons.IH[of p'] Cons show ?thesis by simp
  qed
qed


lemma universal_newlines_keeps:
  "CHR 0x0D \<notin> set p \<Longrightarrow> CHR 0x0A \<notin> set p \<Longrightarrow> sublist p s
     \<Longrightarrow> sublist p (universal_newlines s)"
proof (induction s rule: universal_newlines.induct)
  case 1
  then show ?case by simp
next
  case (2 c cs)
  from "2.prems"(3) consider "prefix p (c # cs)" | "sublist p cs"
    by (auto simp: sublist_Cons_right)
  then show ?case
  proof cases
    case 1
    with "2.prems"(1) have "prefix p (universal_newlines (c # cs))"
      by (rule universal_newlines_prefix)
    then show ?thesis by (rule prefix_imp_sublist)
  next
    case sub: 2
    show ?thesis
    proof (cases "c = CHR 0x0D")
      case True
      have "sublist p (if prefix [CHR 0x0A] cs then tl cs else cs)"
      proof (cases "prefix [CHR 0x0A] cs")
        case False
        with sub show ?thesis by simp
      next
        case pre: True
        then obtain cs' where cs: "cs = CHR 0x0A # cs'" by (cases cs) auto
        with sub have "prefix p (CHR 0x0A # cs') \<or> sublist p cs'"
          by (simp add: sublist_Cons_right)
        moreover have "prefix p (CHR 0x0A # cs') \<Longrightarrow> p = []"
          using "2.prems"(2) by (cases p) auto
        ultimately have "sublist p cs'" by auto
        with cs show ?thesis by simp
      qed
      with "2.IH"(1)[OF True "2.prems"(1,2)] True show ?thesis
        by (simp add: sublist_Cons_right)
    next
      case False
      with "2.IH"(2)[OF False "2.prems"(1,2) sub] show ?thesis
        by (simp add: sublist_Cons_right)
    qed
  qed
qed


subsection \<open>Paths and the default descriptor\<close>

lemma join2_nonempty [simp]: "b \<noteq> [] \<Longrightarrow> join2 a b \<noteq> []"
  by (simp add: join2_def)







subsection \<open>The stages on their own\<close>

text \<open>
  \<^verbatim>\<open>customize_project\<close> on a descriptor that is there: it never aborts, writes
  the substituted text and touches no other file.
\<close>

lemma customize_project_existing:
  assumes "lookup_node w (descriptor_path w pn) = Some (File c)"
  shows "customize_project pn pkg mn tg w =
           Inr ((), w\<lparr>nodes := (nodes w)(resolve w (descriptor_path w pn)
                          \<mapsto> File (substituted pkg mn tg (universal_newlines c))),
                     out := out w @ [customized_line pn pkg mn tg]\<rparr>)"
proof -
  have ne: "descriptor_path w pn \<noteq> []"
    using assms by (auto simp: lookup_node_def split: if_splits)
  show ?thesis
    using assms ne
    by (simp add: customize_project_def descriptor_path_def [symmetric] Let_def
        os_path_exists_def and_then_def read_text_def write_text_def substituted_def
        print_colored_def customized_line_def)
qed

lemma customize_project_descriptor:
  assumes "file_content w (descriptor_path w pn) = Some c"
  shows "\<exists>w'. customize_project pn pkg mn tg w = Inr ((), w') \<and>
           file_content w' (descriptor_path w pn)
             = Some (substituted pkg mn tg (universal_newlines c)) \<and>
           (\<forall>q. q \<noteq> resolve w (descriptor_path w pn) \<longrightarrow> nodes w' q = nodes w q) \<and>
           calls w' = calls w"
proof -
  from assms have f: "lookup_node w (descriptor_path w pn) = Some (File c)"
    by (auto simp: file_content_def split: option.splits node.splits)
  then have ne: "descriptor_path w pn \<noteq> []"
    by (auto simp: lookup_node_def split: if_splits)
  show ?thesis
    unfolding customize_project_existing[OF f]
    using ne by (simp add: file_content_def lookup_node_def resolve_def)
qed


text \<open>
  The check for the execute bit: when the line that \<^verbatim>\<open>ls -l\<close> prints has the
  letter x anywhere, \<open>ensure_gradlew\<close> reports the launcher as executable and
  returns; \<^verbatim>\<open>ls\<close> is the only subprocess it starts.
\<close>

lemma x_survives_strip: "CHR ''x'' \<in> set s \<Longrightarrow> CHR ''x'' \<in> set (str_strip s)"
proof -
  assume x: "CHR ''x'' \<in> set s"
  have nx: "\<not> is_space (CHR ''x'')" by (simp add: is_space_def)
  have keep: "CHR ''x'' \<in> set (dropWhile is_space t)" if "CHR ''x'' \<in> set t" for t
    using that nx by (induction t) auto
  from keep[OF x] have "CHR ''x'' \<in> set (rev (dropWhile is_space s))" by simp
  from keep[OF this] show ?thesis by (simp add: str_strip_def)
qed

lemma ensure_gradlew_x_anywhere:
  assumes ex: "os_path_exists w (gradlew_path pn)"
    and ls: "run [''ls'', ''-l'', gradlew_path pn] None (w\<lparr>out := out w @ [checking_line]\<rparr>)
           = Inr (cp, fs)"
    and rc: "returncode cp = 0"
    and x: "CHR ''x'' \<in> set (stdout cp)"
  shows "ensure_gradlew run pn w =
           Inr ((), w\<lparr>nodes := fs, out := out w @ [checking_line, already_executable_line],
                       calls := calls w @ [listing_call pn]\<rparr>)"
proof -
  have sx: "CHR ''x'' \<in> set (str_strip (stdout cp))"
    using x by (rule x_survives_strip)
  show ?thesis
    unfolding ensure_gradlew_def Let_def gradlew_path_def[symmetric]
    using ex rc sx ls
    by (simp add: and_then_def subprocess_run_def Let_def print_colored_def checking_line_def
        already_executable_line_def listing_call_def)
qed

text \<open>
Every stage only appends to the output and to the list of calls.
\<close>

lemma extends_refl [simp]: "extends w w"
  by (simp add: extends_def)

lemma extends_trans: "extends a b \<Longrightarrow> extends b c \<Longrightarrow> extends a c"
  by (auto simp: extends_def)

lemma extends_print [simp]: "extends w (print_colored m c w)"
  by (simp add: extends_def print_colored_def)

lemma extends_nodes [simp]: "extends w (w\<lparr>nodes := fs\<rparr>)"
  by (simp add: extends_def)

lemma extends_and_then:
  assumes "extends w (final_world r)"
    and "\<And>x w1. r = Inr (x, w1) \<Longrightarrow> extends w1 (final_world (f x w1))"
  shows "extends w (final_world (and_then r f))"
proof (cases r)
  case (Inl e)
  with assms(1) show ?thesis
    by (cases e) (simp add: and_then_def final_world_def)
next
  case (Inr v)
  obtain x w1 where v: "v = (x, w1)" by (cases v)
  with Inr assms(1) have "extends w w1" by (simp add: final_world_def)
  moreover from assms(2) Inr v have "extends w1 (final_world (f x w1))" by simp
  ultimately show ?thesis
    using Inr v by (auto simp: and_then_def intro: extends_trans)
qed

lemma final_world_simps [simp]:
  "final_world (Inl (e, w)) = w" "final_world (Inr (x, w)) = w"
  by (simp_all add: final_world_def)

lemma extends_sys_exit [simp]: "final_world (sys_exit n w) = w"
  by (simp add: sys_exit_def)

lemma extends_subprocess_run: "extends w (final_world (subprocess_run run argv dir w))"
  by (auto simp: subprocess_run_def extends_def Let_def split: sum.splits prod.splits)

lemma extends_makedirs: "extends w (final_world (os_makedirs p e w))"
  by (auto simp: os_makedirs_def extends_def split: option.splits node.splits)

lemma extends_read_text: "extends w (final_world (read_text p w))"
  by (auto simp: read_text_def extends_def split: option.splits node.splits)

lemma extends_write_text: "extends w (final_world (write_text p s w))"
  by (auto simp: write_text_def extends_def split: option.splits node.splits)

lemma extends_print_later [simp]: "extends w w' \<Longrightarrow> extends w (print_colored m c w')"
  by (simp add: extends_def print_colored_def)

lemma extends_after_print:
  "extends (print_colored m c w) w' \<Longrightarrow> extends w w'"
  using extends_print extends_trans by blast

lemma extends_clone_template: "extends w (final_world (clone_template run repo pn w))"
  unfolding clone_template_def
  by (rule extends_after_print, rule extends_and_then, rule extends_subprocess_run) simp

lemma extends_create_default:
  "extends w (final_world (create_default_build_gradle pp pkg mn tg w))"
  unfolding create_default_build_gradle_def Let_def
  by (rule extends_and_then) (auto simp: extends_makedirs extends_write_text)

lemma extends_customize_project:
  "extends w (final_world (customize_project pn pkg mn tg w))"
  unfolding customize_project_def Let_def
  apply (rule extends_and_then)
   apply (auto intro: extends_after_print extends_create_default)[1]
  apply (rule extends_and_then)
   apply (rule extends_read_text)
  apply (rule extends_and_then)
   apply (rule extends_write_text)
  apply simp
  done

lemma extends_ensure_gradlew: "extends w (final_world (ensure_gradlew run pn w))"
  unfolding ensure_gradlew_def Let_def
  apply (rule extends_and_then)
   apply (auto intro!: extends_after_print[OF extends_and_then] extends_subprocess_run)[1]
  apply (auto intro!: extends_after_print[OF extends_and_then] extends_subprocess_run)
  done

lemma extends_compile_project: "extends w (final_world (compile_project run pn w))"
  unfolding compile_project_def Let_def
  apply (rule extends_and_then)
   apply (rule extends_ensure_gradlew)
  apply (rule extends_after_print)
  apply (rule extends_and_then)
   apply (rule extends_subprocess_run)
  apply (auto intro: extends_after_print)
  done

lemma extends_customize_compile:
  "extends w (final_world (and_then (customize_project pn pkg mn tg w) (\<lambda>u. compile_project run pn)))"
  by (rule extends_and_then) (simp_all add: extends_customize_project extends_compile_project)

lemma and_then_calls:
  assumes "\<And>x w1. r = Inr (x, w1) \<Longrightarrow> extends w1 (final_world (f x w1))"
  shows "prefix (calls (final_world r)) (calls (final_world (and_then r f)))"
proof (cases r)
  case (Inl e)
  then show ?thesis by (cases e) (simp add: and_then_def final_world_def)
next
  case (Inr v)
  obtain x w1 where v: "v = (x, w1)" by (cases v)
  with assms Inr have "extends w1 (final_world (f x w1))" by simp
  with Inr v show ?thesis by (simp add: and_then_def extends_def)
qed

lemma clone_template_calls:
  "calls (final_world (clone_template run repo pn w)) = calls w @ [([''git'', ''clone'', repo, pn], None)]"
  by (auto simp: clone_template_def and_then_def subprocess_run_def print_colored_def Let_def
      sys_exit_def split: sum.splits prod.splits)

text \<open>
\<open>main\<close> with four arguments, stage by stage, and the sample run.
\<close>

lemma main_stages:
  "main run [prog, pn, pkg, mn, tg] w =
     and_then (os_makedirs pn True (announced [prog, pn, pkg, mn, tg] w))
       (\<lambda>u w3. and_then (clone_template run template_repo pn w3)
          (\<lambda>u w4. and_then (customize_project pn pkg mn tg w4)
             (\<lambda>u w5. compile_project run pn w5)))"
  by (simp add: main_def Let_def announced_def template_repo_def)

lemma makedirs_existing:
  "lookup_node w pn = Some Dir \<Longrightarrow> os_makedirs pn True w = Inr ((), w)"
  by (auto simp: os_makedirs_def lookup_node_def split: if_splits)

lemma makedirs_twice:
  "and_then (os_makedirs pn True w) (\<lambda>u. os_makedirs pn True) = os_makedirs pn True w"
  by (auto simp: os_makedirs_def and_then_def lookup_node_def resolve_def
      split: option.splits node.splits)

lemma ok_final: "\<not> isl r \<Longrightarrow> r = Inr ((), final_world r)"
  by (cases r) (auto simp: final_world_def)

lemma demo_steps:
  "os_makedirs ''MyApp'' True (announced demo_argv empty_world) = Inr ((), demo_created)"
  "clone_template happy_runner template_repo ''MyApp'' demo_created = Inr ((), demo_cloned)"
  "customize_project ''MyApp'' ''com.test.app'' ''23'' ''33'' demo_cloned
     = Inr ((), demo_customized)"
  "ensure_gradlew happy_runner ''MyApp'' demo_customized = Inr ((), demo_checked)"
proof -
  have "\<not> isl (os_makedirs ''MyApp'' True (announced demo_argv empty_world))"
    by code_simp
  then show "os_makedirs ''MyApp'' True (announced demo_argv empty_world) = Inr ((), demo_created)"
    unfolding demo_created_def by (rule ok_final)
  have "\<not> isl (clone_template happy_runner template_repo ''MyApp'' demo_created)"
    by code_simp
  then show "clone_template happy_runner template_repo ''MyApp'' demo_created
      = Inr ((), demo_cloned)"
    unfolding demo_cloned_def by (rule ok_final)
  have "\<not> isl (customize_project ''MyApp'' ''com.test.app'' ''23'' ''33'' demo_cloned)"
    by code_simp
  then show "customize_project ''MyApp'' ''com.test.app'' ''23'' ''33'' demo_cloned
     = Inr ((), demo_customized)"
    unfolding demo_customized_def by (rule ok_final)
  have "\<not> isl (ensure_gradlew happy_runner ''MyApp'' demo_customized)"
    by code_simp
  then show "ensure_gradlew happy_runner ''MyApp'' demo_customized = Inr ((), demo_checked)"
    unfolding demo_checked_def by (rule ok_final)
qed

subsection \<open>The claims\<close>

text \<open>
  C1, as amended. Let the descriptor contain the three placeholders, and let none of the
  three texts put in their place (the package name, \<^verbatim>\<open>minSdkVersion\<close> with the
  given value, \<^verbatim>\<open>targetSdkVersion\<close> with the given value) be able to overlap any
  placeholder. Then \<open>customize_project\<close> returns normally, the rewritten descriptor
  contains no occurrence of any placeholder, and it contains each of the three new texts.
\<close>

theorem customize_project_replaces_placeholders:
  assumes "file_content w (descriptor_path w pn) = Some c"
    and "\<forall>p \<in> set placeholders. sublist p c"
    and "\<forall>n \<in> set (replacements pkg mn tg). \<forall>p \<in> set placeholders. \<not> can_overlap n p"
  shows "\<exists>w' c'. customize_project pn pkg mn tg w = Inr ((), w') \<and>
           file_content w' (descriptor_path w pn) = Some c' \<and>
           (\<forall>p \<in> set placeholders. \<not> sublist p c') \<and>
           (\<forall>n \<in> set (replacements pkg mn tg). sublist n c')"
proof -
  from customize_project_descriptor[OF assms(1)] obtain w' where
    w': "customize_project pn pkg mn tg w = Inr ((), w')"
    "file_content w' (descriptor_path w pn) = Some (substituted pkg mn tg (universal_newlines c))"
    by blast
  have "\<forall>p \<in> set placeholders. sublist p (universal_newlines c)"
    using assms(2) placeholders_plain universal_newlines_keeps by blast
  from substituted_clean[OF this assms(3)] w' show ?thesis by blast
qed

theorem customize_project_replaces_placeholders_witness:
  "file_content (world_with_descriptor template_descriptor)
      (descriptor_path (world_with_descriptor template_descriptor) ''MyApp'')
     = Some template_descriptor \<and>
   sublist ''com.example.app'' template_descriptor \<and>
   sublist ''minSdkVersion 21'' template_descriptor \<and>
   sublist ''targetSdkVersion 30'' template_descriptor \<and>
   \<not> (\<exists>n \<in> set (replacements ''com.test.app'' ''23'' ''33'').
        \<exists>p \<in> set placeholders. can_overlap n p) \<and>
   (\<exists>w' c'. customize_project ''MyApp'' ''com.test.app'' ''23'' ''33''
                (world_with_descriptor template_descriptor) = Inr ((), w') \<and>
      file_content w' (descriptor_path (world_with_descriptor template_descriptor) ''MyApp'')
        = Some c' \<and>
      (\<forall>p \<in> set placeholders. \<not> sublist p c') \<and>
      (\<forall>n \<in> set (replacements ''com.test.app'' ''23'' ''33''). sublist n c'))"
proof -
  have h1: "file_content (world_with_descriptor template_descriptor)
      (descriptor_path (world_with_descriptor template_descriptor) ''MyApp'')
     = Some template_descriptor"
    by code_simp
  have h2: "\<forall>p \<in> set placeholders. sublist p template_descriptor"
    by code_simp
  have h3: "\<forall>n \<in> set (replacements ''com.test.app'' ''23'' ''33'').
      \<forall>p \<in> set placeholders. \<not> can_overlap n p"
    by code_simp
  have g2: "sublist ''com.example.app'' template_descriptor \<and>
      sublist ''minSdkVersion 21'' template_descriptor \<and>
      sublist ''targetSdkVersion 30'' template_descriptor"
    using h2 by (simp add: placeholders_def)
  have g3: "\<not> (\<exists>n \<in> set (replacements ''com.test.app'' ''23'' ''33'').
        \<exists>p \<in> set placeholders. can_overlap n p)"
    using h3 by blast
  from customize_project_replaces_placeholders[OF h1 h2 h3] h1 g2 g3
  show ?thesis by blast
qed

text \<open>
  Without the condition on the supplied values the statement of C1 fails: the template
  contains the three placeholders, the minimum SDK asked for is 21, the value the
  template has already, and the rewritten descriptor still contains
  \<^verbatim>\<open>minSdkVersion 21\<close>.
\<close>

theorem default_min_sdk_stays:
  "sublist ''com.example.app'' template_descriptor \<and>
   sublist ''minSdkVersion 21'' template_descriptor \<and>
   sublist ''targetSdkVersion 30'' template_descriptor \<and>
   descriptor_after ''MyApp'' ''com.test.app'' ''21'' ''33''
       (world_with_descriptor template_descriptor)
     = Some (unix_text (descriptor_lines ''com.test.app'' ''21'' ''33'')) \<and>
   sublist ''minSdkVersion 21'' (unix_text (descriptor_lines ''com.test.app'' ''21'' ''33''))"
  by code_simp

text \<open>
  C2, evaluated where it fails. The launcher \<^verbatim>\<open>box/gradlew\<close> exists and the
  listing shows mode \<^verbatim>\<open>-rw-r--r--\<close>, so it is not executable. The script looks
  for the letter x in the whole listing line, finds it in the path, and starts no
  \<^verbatim>\<open>chmod\<close>: the only subprocess is \<^verbatim>\<open>ls\<close>. For \<^verbatim>\<open>MyApp/gradlew\<close>
  with the same mode, \<^verbatim>\<open>chmod +x\<close> is started once.
\<close>

theorem execute_check_reads_whole_listing:
  "calls (final_world (ensure_gradlew (listing_runner ''-rw-r--r--'') ''box''
       (world_with_gradlew ''box'')))
     = [([''ls'', ''-l'', ''box/gradlew''], None)] \<and>
   calls (final_world (ensure_gradlew (listing_runner ''-rw-r--r--'') ''MyApp''
       (world_with_gradlew ''MyApp'')))
     = [([''ls'', ''-l'', ''MyApp/gradlew''], None),
        ([''chmod'', ''+x'', ''MyApp/gradlew''], Some ''MyApp'')]"
  by code_simp








text \<open>
  C6. Let the four-argument run get as far as the build, let the launcher return status
  0, and let there be nothing at the path of the APK afterwards. Then \<open>main\<close> returns
  normally, so the exit status is 0, and the last three lines printed are the one that
  announces the build, \<^verbatim>\<open>Build successful!\<close> and the line that reports the
  missing APK.
\<close>

theorem missing_apk_is_not_fatal:
  assumes "os_makedirs pn True (announced [prog, pn, pkg, mn, tg] w) = Inr ((), w3)"
    and "clone_template run template_repo pn w3 = Inr ((), w4)"
    and "customize_project pn pkg mn tg w4 = Inr ((), w5)"
    and "ensure_gradlew run pn w5 = Inr ((), w6)"
    and "run (build_argv w5 pn) (Some (project_path w5 pn))
           (w6\<lparr>out := out w6 @ [compiling_line pn]\<rparr>) = Inr (cp, fs)"
    and "returncode cp = 0"
    and "\<not> os_path_exists (w6\<lparr>nodes := fs\<rparr>) (apk_path w5 pn)"
  shows "\<exists>w'. main run [prog, pn, pkg, mn, tg] w = Inr ((), w') \<and>
           exit_status (main run [prog, pn, pkg, mn, tg] w) = 0 \<and>
           out w' = out w6 @ [compiling_line pn, build_successful_line, apk_missing_line] \<and>
           calls w' = calls w6 @ [(build_argv w5 pn, Some (project_path w5 pn))]"
proof -
  have c: "compile_project run pn w5 =
      Inr ((), w6\<lparr>nodes := fs,
                  out := out w6 @ [compiling_line pn, build_successful_line, apk_missing_line],
                  calls := calls w6 @ [(build_argv w5 pn, Some (project_path w5 pn))]\<rparr>)"
    using assms(4-7)
    by (simp add: compile_project_def Let_def and_then_def subprocess_run_def print_colored_def
        build_argv_def project_path_def apk_path_def compiling_line_def
        build_successful_line_def apk_missing_line_def os_path_exists_def lookup_node_def
        resolve_def os_path_join_def)
  have "main run [prog, pn, pkg, mn, tg] w = compile_project run pn w5"
    using assms(1-3) by (simp add: main_stages and_then_def)
  with c show ?thesis by (simp add: exit_status_def)
qed

theorem missing_apk_is_not_fatal_witness:
  "os_makedirs ''MyApp'' True (announced demo_argv empty_world) = Inr ((), demo_created) \<and>
   clone_template happy_runner template_repo ''MyApp'' demo_created = Inr ((), demo_cloned) \<and>
   customize_project ''MyApp'' ''com.test.app'' ''23'' ''33'' demo_cloned
     = Inr ((), demo_customized) \<and>
   ensure_gradlew happy_runner ''MyApp'' demo_customized = Inr ((), demo_checked) \<and>
   demo_build = Inr (completed_ok, nodes demo_checked) \<and>
   returncode completed_ok = 0 \<and>
   \<not> os_path_exists (demo_checked\<lparr>nodes := nodes demo_checked\<rparr>)
       (apk_path demo_customized ''MyApp'') \<and>
   (\<exists>w'. main happy_runner demo_argv empty_world = Inr ((), w') \<and>
      exit_status (main happy_runner demo_argv empty_world) = 0 \<and>
      out w' = out demo_checked
        @ [compiling_line ''MyApp'', build_successful_line, apk_missing_line] \<and>
      calls w' = calls demo_checked
        @ [(build_argv demo_customized ''MyApp'', Some (project_path demo_customized ''MyApp''))])"
proof -
  have h5: "demo_build = Inr (completed_ok, nodes demo_checked)"
    by (simp add: demo_build_def happy_runner_def build_argv_def)
  have h6: "returncode completed_ok = 0"
    by (simp add: completed_ok_def)
  have h7: "\<not> os_path_exists (demo_checked\<lparr>nodes := nodes demo_checked\<rparr>)
       (apk_path demo_customized ''MyApp'')"
    by code_simp
  from missing_apk_is_not_fatal
    [where run = happy_runner and cp = completed_ok and fs = "nodes demo_checked",
     OF demo_steps(1)[unfolded demo_argv_def] demo_steps(2,3,4)
        h5[unfolded demo_build_def] h6 h7]
    demo_steps h5 h6 h7
  show ?thesis by (simp add: demo_argv_def)
qed

text \<open>
  C7. When there is no launcher at the start of \<open>ensure_gradlew\<close>, the first
  subprocess it starts is \<^verbatim>\<open>gradle wrapper\<close> in the project directory, so every
  \<^verbatim>\<open>ls\<close> and \<^verbatim>\<open>chmod\<close> comes later; and when the wrapper generation fails,
  nothing else is started and the exit status is 1.
\<close>

theorem wrapper_generation_comes_first:
  assumes "\<not> os_path_exists w (gradlew_path pn)"
  shows "\<exists>rest. calls (final_world (ensure_gradlew run pn w)) = calls w @ wrapper_call pn # rest \<and>
           (wrapper_failed run pn w \<longrightarrow> rest = [] \<and> exit_status (ensure_gradlew run pn w) = 1)"
  using assms
  by (auto simp: ensure_gradlew_def gradlew_path_def wrapper_call_def wrapper_failed_def
      wrapper_notice_def Let_def and_then_def subprocess_run_def sys_exit_def print_colored_def
      final_world_def exit_status_def
      split: sum.splits prod.splits if_splits)

theorem wrapper_generation_comes_first_witness:
  "\<not> os_path_exists empty_world (gradlew_path ''MyApp'') \<and>
   wrapper_failed no_runner ''MyApp'' empty_world \<and>
   calls (final_world (ensure_gradlew no_runner ''MyApp'' empty_world))
     = calls empty_world @ [wrapper_call ''MyApp''] \<and>
   exit_status (ensure_gradlew no_runner ''MyApp'' empty_world) = 1"
proof -
  have h1: "\<not> os_path_exists empty_world (gradlew_path ''MyApp'')"
    by code_simp
  have h2: "wrapper_failed no_runner ''MyApp'' empty_world"
    by code_simp
  from wrapper_generation_comes_first[OF h1, of no_runner] h1 h2
  show ?thesis by auto
qed

text \<open>
  C8. \<^verbatim>\<open>os.makedirs(project_name, exist_ok=True)\<close> returns normally and changes
  nothing when the directory is there already; doing it twice is doing it once; and
  \<open>main\<close> in a world where the directory exists goes on to start the clone.
\<close>

theorem project_directory_may_exist:
  "(lookup_node w pn = Some Dir \<longrightarrow> os_makedirs pn True w = Inr ((), w)) \<and>
   and_then (os_makedirs pn True w) (\<lambda>u. os_makedirs pn True) = os_makedirs pn True w \<and>
   (lookup_node w pn = Some Dir \<longrightarrow>
      (\<exists>rest. calls (final_world (main run [prog, pn, pkg, mn, tg] w))
                 = calls w @ clone_call pn # rest))"
proof (intro conjI impI)
  assume "lookup_node w pn = Some Dir"
  then show "os_makedirs pn True w = Inr ((), w)" by (rule makedirs_existing)
next
  show "and_then (os_makedirs pn True w) (\<lambda>u. os_makedirs pn True) = os_makedirs pn True w"
    by (rule makedirs_twice)
next
  assume d: "lookup_node w pn = Some Dir"
  let ?a = "announced [prog, pn, pkg, mn, tg] w"
  have "lookup_node ?a pn = Some Dir"
    using d
    by (auto simp: announced_def print_colored_def lookup_node_def resolve_def split: if_splits)
  then have m: "os_makedirs pn True ?a = Inr ((), ?a)" by (rule makedirs_existing)
  let ?r = "clone_template run template_repo pn ?a"
  let ?f = "\<lambda>(u::unit) w4. and_then (customize_project pn pkg mn tg w4)
             (\<lambda>u w5. compile_project run pn w5)"
  have "main run [prog, pn, pkg, mn, tg] w = and_then ?r ?f"
    by (simp add: main_stages m and_then_def)
  moreover have "prefix (calls (final_world ?r)) (calls (final_world (and_then ?r ?f)))"
    by (rule and_then_calls) (rule extends_customize_compile)
  moreover have "calls (final_world ?r) = calls w @ [clone_call pn]"
    by (simp add: clone_template_calls clone_call_def announced_def print_colored_def)
  ultimately show "\<exists>rest. calls (final_world (main run [prog, pn, pkg, mn, tg] w))
                 = calls w @ clone_call pn # rest"
    by (auto simp: prefix_def)
qed

theorem project_directory_may_exist_witness:
  "lookup_node world_with_project ''MyApp'' = Some Dir \<and>
   os_makedirs ''MyApp'' True world_with_project = Inr ((), world_with_project) \<and>
   (\<exists>rest. calls (final_world (main no_runner demo_argv world_with_project))
              = calls world_with_project @ clone_call ''MyApp'' # rest)"
proof -
  have h: "lookup_node world_with_project ''MyApp'' = Some Dir"
    by code_simp
  from project_directory_may_exist
    [of world_with_project "''MyApp''" no_runner "''androidline.py''" "''com.test.app''"
        "''23''" "''33''"] h
  show ?thesis by (simp add: demo_argv_def)
qed

text \<open>
  C9. For any four argument strings: once the directory creation and the clone have
  succeeded, what is left of \<open>main\<close> is \<open>customize_project\<close> with exactly these
  strings, followed by \<open>compile_project\<close>. The two lines with the arguments have been
  printed, the one subprocess started so far is the clone into the project name as
  given, and a descriptor delivered by the clone is rewritten with the strings as given.
  Nothing is assumed about the package name or the SDK values.
\<close>

theorem arguments_are_used_as_given:
  assumes "os_makedirs pn True (announced [prog, pn, pkg, mn, tg] w) = Inr ((), w3)"
    and "clone_template run template_repo pn w3 = Inr ((), w4)"
  shows "main run [prog, pn, pkg, mn, tg] w
           = and_then (customize_project pn pkg mn tg w4) (\<lambda>u. compile_project run pn) \<and>
         prefix (out w @ [arguments_line [prog, pn, pkg, mn, tg], creating_line pn]) (out w4) \<and>
         calls w4 = calls w @ [clone_call pn] \<and>
         (\<forall>c. file_content w4 (descriptor_path w4 pn) = Some c \<longrightarrow>
            (\<exists>w5. customize_project pn pkg mn tg w4 = Inr ((), w5) \<and>
               file_content w5 (descriptor_path w4 pn)
                 = Some (substituted pkg mn tg (universal_newlines c))))"
proof (intro conjI allI impI)
  show "main run [prog, pn, pkg, mn, tg] w
           = and_then (customize_project pn pkg mn tg w4) (\<lambda>u. compile_project run pn)"
    using assms by (simp add: main_stages and_then_def)
next
  let ?a = "announced [prog, pn, pkg, mn, tg] w"
  have a: "out ?a = out w @ [arguments_line [prog, pn, pkg, mn, tg], creating_line pn]"
    "calls ?a = calls w"
    by (simp_all add: announced_def print_colored_def arguments_line_def creating_line_def)
  have e3: "extends ?a w3"
    using extends_makedirs[of ?a pn True] assms(1) by simp
  have e4: "extends w3 w4"
    using extends_clone_template[of w3 run template_repo pn] assms(2) by simp
  from e3 e4 have "extends ?a w4" by (rule extends_trans)
  with a show "prefix (out w @ [arguments_line [prog, pn, pkg, mn, tg], creating_line pn]) (out w4)"
    by (simp add: extends_def)
  have "calls w3 = calls w"
    using assms(1) a(2)
    by (auto simp: os_makedirs_def split: if_splits option.splits node.splits)
  with clone_template_calls[of run template_repo pn w3] assms(2)
  show "calls w4 = calls w @ [clone_call pn]"
    by (simp add: clone_call_def)
next
  fix c
  assume "file_content w4 (descriptor_path w4 pn) = Some c"
  from customize_project_descriptor[OF this]
  show "\<exists>w5. customize_project pn pkg mn tg w4 = Inr ((), w5) \<and>
               file_content w5 (descriptor_path w4 pn)
                 = Some (substituted pkg mn tg (universal_newlines c))"
    by blast
qed

theorem arguments_are_used_as_given_witness:
  "os_makedirs ''MyApp'' True (announced demo_argv empty_world) = Inr ((), demo_created) \<and>
   clone_template happy_runner template_repo ''MyApp'' demo_created = Inr ((), demo_cloned) \<and>
   file_content demo_cloned (descriptor_path demo_cloned ''MyApp'') = Some template_descriptor \<and>
   main happy_runner demo_argv empty_world
     = and_then (customize_project ''MyApp'' ''com.test.app'' ''23'' ''33'' demo_cloned)
         (\<lambda>u. compile_project happy_runner ''MyApp'') \<and>
   calls demo_cloned = calls empty_world @ [clone_call ''MyApp''] \<and>
   (\<exists>w5. customize_project ''MyApp'' ''com.test.app'' ''23'' ''33'' demo_cloned = Inr ((), w5) \<and>
      file_content w5 (descriptor_path demo_cloned ''MyApp'')
        = Some (substituted ''com.test.app'' ''23'' ''33'' (universal_newlines template_descriptor)))"
proof -
  have h3: "file_content demo_cloned (descriptor_path demo_cloned ''MyApp'')
      = Some template_descriptor"
    by code_simp
  from arguments_are_used_as_given[OF demo_steps(1)[unfolded demo_argv_def] demo_steps(2)]
    demo_steps(1,2) h3
  show ?thesis by (simp add: demo_argv_def)
qed

text \<open>
  C10. When there is no launcher, \<^verbatim>\<open>gradle wrapper\<close> returns status 0 and there
  is still no launcher, \<open>ensure_gradlew\<close> prints the error line and exits with status
  1 without starting \<^verbatim>\<open>ls\<close> or \<^verbatim>\<open>chmod\<close>; \<open>compile_project\<close> ends the same
  way, so the build is not started.
\<close>

theorem wrapper_success_without_launcher:
  assumes "\<not> os_path_exists w (gradlew_path pn)"
    and "run [''gradle'', ''wrapper''] (Some pn) (w\<lparr>out := out w @ [wrapper_notice]\<rparr>) = Inr (cp, fs)"
    and "returncode cp = 0"
    and "\<not> os_path_exists (w\<lparr>nodes := fs\<rparr>) (gradlew_path pn)"
  shows "ensure_gradlew run pn w =
           Inl (SysExit 1, w\<lparr>nodes := fs, out := out w @ [wrapper_notice, launcher_missing_line],
                              calls := calls w @ [wrapper_call pn]\<rparr>) \<and>
         compile_project run pn w = ensure_gradlew run pn w \<and>
         exit_status (compile_project run pn w) = 1"
proof -
  have e: "ensure_gradlew run pn w =
           Inl (SysExit 1, w\<lparr>nodes := fs, out := out w @ [wrapper_notice, launcher_missing_line],
                              calls := calls w @ [wrapper_call pn]\<rparr>)"
    using assms
    by (simp add: ensure_gradlew_def gradlew_path_def wrapper_call_def wrapper_notice_def
        launcher_missing_line_def Let_def and_then_def subprocess_run_def sys_exit_def
        print_colored_def os_path_exists_def lookup_node_def resolve_def os_path_join_def)
  then have "compile_project run pn w = ensure_gradlew run pn w"
    by (simp add: compile_project_def and_then_def Let_def)
  with e show ?thesis by (simp add: exit_status_def)
qed

theorem wrapper_success_without_launcher_witness:
  "\<not> os_path_exists empty_world (gradlew_path ''MyApp'') \<and>
   idle_runner [''gradle'', ''wrapper''] (Some ''MyApp'')
       (empty_world\<lparr>out := out empty_world @ [wrapper_notice]\<rparr>)
     = Inr (completed_ok, nodes empty_world) \<and>
   returncode completed_ok = 0 \<and>
   \<not> os_path_exists (empty_world\<lparr>nodes := nodes empty_world\<rparr>) (gradlew_path ''MyApp'') \<and>
   ensure_gradlew idle_runner ''MyApp'' empty_world =
     Inl (SysExit 1, empty_world\<lparr>nodes := nodes empty_world,
            out := out empty_world @ [wrapper_notice, launcher_missing_line],
            calls := calls empty_world @ [wrapper_call ''MyApp'']\<rparr>) \<and>
   compile_project idle_runner ''MyApp'' empty_world
     = ensure_gradlew idle_runner ''MyApp'' empty_world \<and>
   exit_status (compile_project idle_runner ''MyApp'' empty_world) = 1"
proof -
  have h1: "\<not> os_path_exists empty_world (gradlew_path ''MyApp'')"
    by code_simp
  have h2: "idle_runner [''gradle'', ''wrapper''] (Some ''MyApp'')
       (empty_world\<lparr>out := out empty_world @ [wrapper_notice]\<rparr>)
     = Inr (completed_ok, nodes empty_world)"
    by (simp add: idle_runner_def)
  have h3: "returncode completed_ok = 0"
    by (simp add: completed_ok_def)
  have h4: "\<not> os_path_exists (empty_world\<lparr>nodes := nodes empty_world\<rparr>) (gradlew_path ''MyApp'')"
    using h1 by simp
  from wrapper_success_without_launcher
    [where w = empty_world and pn = "''MyApp''" and run = idle_runner and cp = completed_ok
       and fs = "nodes empty_world", OF h1 h2 h3 h4] h1 h2 h3 h4
  show ?thesis by blast
qed

end
